theory Spec2Isabelle
  imports Main
begin

section \<open>Python values used by \<^verbatim>\<open>read_docs.py\<close>\<close>

text \<open>
  A Python \<^verbatim>\<open>str\<close> is a sequence of Unicode code points, so it is modelled as a list of
  natural numbers (the hard-coded paths of the driver hold Arabic letters, and
  \<^verbatim>\<open>str.strip()\<close> removes Unicode white space, neither of which fits an 8-bit character).
  ASCII literals of the source are written with \<open>lit\<close>. Raw bytes (\<^verbatim>\<open>bytes\<close>) are
  Isabelle strings.
\<close>

type_synonym str = "nat list"
type_synonym bytes = "string"

definition lit :: "string \<Rightarrow> str" where
  "lit s = map of_char s"

text \<open>The line break \<^verbatim>\<open>"\n"\<close> (U+000A).\<close>

definition nl :: str where
  "nl = [10]"

text \<open>
  \<^verbatim>\<open>str.isspace()\<close> for one code point: the characters CPython classifies as white space
  (bidirectional type WS, B or S, or category Zs).
\<close>

definition is_space :: "nat \<Rightarrow> bool" where
  "is_space c \<longleftrightarrow>
     (9 \<le> c \<and> c \<le> 13) \<or> (28 \<le> c \<and> c \<le> 32) \<or> c = 133 \<or> c = 160 \<or> c = 5760 \<or>
     (8192 \<le> c \<and> c \<le> 8202) \<or> c = 8232 \<or> c = 8233 \<or> c = 8239 \<or> c = 8287 \<or> c = 12288"

text \<open>\<^verbatim>\<open>s.strip()\<close>: white space removed at both ends.\<close>

definition strip :: "str \<Rightarrow> str" where
  "strip s = rev (dropWhile is_space (rev (dropWhile is_space s)))"

text \<open>\<^verbatim>\<open>s.replace("\n", " ")\<close>: both strings are one code point long.\<close>

definition replace_nl :: "str \<Rightarrow> str" where
  "replace_nl s = map (\<lambda>c. if c = 10 then 32 else c) s"

text \<open>\<^verbatim>\<open>sep.join(xs)\<close>.\<close>

fun join :: "str \<Rightarrow> str list \<Rightarrow> str" where
  "join sep [] = []"
| "join sep [x] = x"
| "join sep (x # y # ys) = x @ sep @ join sep (y # ys)"

text \<open>\<^verbatim>\<open>any(xs)\<close> on a list of strings: some string is non-empty.\<close>

definition any :: "str list \<Rightarrow> bool" where
  "any xs = list_ex (\<lambda>x. x \<noteq> []) xs"

text \<open>\<^verbatim>\<open>s.endswith(suffix)\<close>.\<close>

definition endswith :: "str \<Rightarrow> str \<Rightarrow> bool" where
  "endswith s suffix = (length suffix \<le> length s \<and> drop (length s - length suffix) s = suffix)"

section \<open>The libraries' data\<close>

text \<open>
  An exception caught by \<^verbatim>\<open>except Exception\<close>; \<open>str_of e\<close> is \<^verbatim>\<open>str(e)\<close>, what the
  f-string \<^verbatim>\<open>{e}\<close> formats. Asynchronous exceptions outside \<^verbatim>\<open>Exception\<close>
  (\<^verbatim>\<open>KeyboardInterrupt\<close>) are not modelled.
\<close>

datatype exn = Exception (str_of: str)

text \<open>
  What \<^verbatim>\<open>python-docx\<close> gives: \<^verbatim>\<open>doc.paragraphs\<close>, each with its \<^verbatim>\<open>.text\<close>, and
  \<^verbatim>\<open>doc.tables\<close>, each with \<^verbatim>\<open>.rows\<close>, each with \<^verbatim>\<open>.cells\<close>, each with its
  \<^verbatim>\<open>.text\<close>. Each of these is a property that the library computes from the opened
  package when it is read, so each read returns its value or raises.
\<close>

datatype par = Paragraph (par_text: "exn + str")
datatype cell = Cell (cell_text: "exn + str")
datatype row = Row (cells: "exn + cell list")
datatype table = Table (rows: "exn + row list")

record document =
  paragraphs :: "exn + par list"
  tables :: "exn + table list"

text \<open>
  An \<^verbatim>\<open>xml.etree.ElementTree.Element\<close>: \<^verbatim>\<open>.text\<close> is the text before the first child
  (or \<^verbatim>\<open>None\<close>), \<^verbatim>\<open>.tail\<close> the text after the element's end tag (or \<^verbatim>\<open>None\<close>).
  Tag and attributes are never looked at by the program.
\<close>

datatype element = Element (elem_text: "str option") (children: "element list") (elem_tail: "str option")

text \<open>
  \<^verbatim>\<open>Element.iter()\<close>: the element itself, then all elements below it, in document
  (depth-first) order.
\<close>

fun iter :: "element \<Rightarrow> element list" where
  "iter (Element t cs ta) = Element t cs ta # concat (map iter cs)"

text \<open>
  An open \<^verbatim>\<open>zipfile.ZipFile\<close>: \<^verbatim>\<open>z.namelist()\<close> and \<^verbatim>\<open>z.read(name)\<close>, which returns
  the entry's bytes or raises.
\<close>

record archive =
  namelist :: "str list"
  read :: "str \<Rightarrow> exn + bytes"

text \<open>
  The file system and the parsers, as the program sees them: \<^verbatim>\<open>docx.Document(path)\<close>,
  \<^verbatim>\<open>zipfile.ZipFile(path, 'r')\<close>, \<^verbatim>\<open>ET.fromstring(content)\<close> and
  \<^verbatim>\<open>open(path, "w", encoding="utf-8")\<close> each return a value or raise.
\<close>

record env =
  Document :: "str \<Rightarrow> exn + document"
  ZipFile :: "str \<Rightarrow> exn + archive"
  fromstring :: "bytes \<Rightarrow> exn + element"
  open_w :: "str \<Rightarrow> exn + unit"

section \<open>Statements: the output stream and exceptions\<close>

text \<open>
  A statement runs on the text written to \<^verbatim>\<open>out_file\<close> so far and returns the text
  after it together with its result: \<open>Inr\<close> a value, or \<open>Inl\<close> the exception it raised.
  What was written before an exception stays written. Once opened, the stream is taken
  as writable: \<^verbatim>\<open>out_file.write\<close> itself does not raise.
\<close>

type_synonym 'a prog = "str \<Rightarrow> (exn + 'a) \<times> str"

definition out_write :: "str \<Rightarrow> unit prog" where
  "out_write s out = (Inr (), out @ s)"

definition skip :: "unit prog" where
  "skip out = (Inr (), out)"

text \<open>A library call: its value, or its exception.\<close>

definition call :: "exn + 'a \<Rightarrow> 'a prog" where
  "call r out = (r, out)"

text \<open>Sequencing: an exception of the first statement skips the rest.\<close>

definition seq :: "'a prog \<Rightarrow> ('a \<Rightarrow> 'b prog) \<Rightarrow> 'b prog" where
  "seq m f out = (case m out of (Inl e, out') \<Rightarrow> (Inl e, out') | (Inr x, out') \<Rightarrow> f x out')"

text \<open>\<^verbatim>\<open>try: m  except Exception as e: h e\<close>.\<close>

definition try_except :: "unit prog \<Rightarrow> (exn \<Rightarrow> unit prog) \<Rightarrow> unit prog" where
  "try_except m h out = (case m out of (Inl e, out') \<Rightarrow> h e out' | (Inr x, out') \<Rightarrow> (Inr x, out'))"

text \<open>\<^verbatim>\<open>for x in xs: body x\<close>.\<close>

fun for_each :: "'a list \<Rightarrow> ('a \<Rightarrow> unit prog) \<Rightarrow> unit prog" where
  "for_each [] body = skip"
| "for_each (x # xs) body = seq (body x) (\<lambda>_. for_each xs body)"

section \<open>\<^verbatim>\<open>read_docx\<close>\<close>

text \<open>
  The body of the paragraph loop (lines 9 and 10): \<^verbatim>\<open>p.text\<close> is read for the test and
  read again for the line.
\<close>

definition paragraph_step :: "par \<Rightarrow> unit prog" where
  "paragraph_step p =
     seq (call (par_text p)) (\<lambda>t.
       if strip t \<noteq> [] then seq (call (par_text p)) (\<lambda>t'. out_write (t' @ nl)) else skip)"

text \<open>
  The cell loop (lines 14 and 15): \<^verbatim>\<open>row_data\<close>, starting from the list so far, gets one
  string appended for each cell.
\<close>

fun row_data :: "cell list \<Rightarrow> str list \<Rightarrow> (str list) prog" where
  "row_data [] acc = call (Inr acc)"
| "row_data (c # cs) acc =
     seq (call (cell_text c)) (\<lambda>t. row_data cs (acc @ [strip (replace_nl t)]))"

text \<open>The body of the row loop (lines 13 to 17).\<close>

definition row_step :: "row \<Rightarrow> unit prog" where
  "row_step r =
     seq (call (cells r)) (\<lambda>cs.
     seq (row_data cs []) (\<lambda>d.
       if any d then out_write (join (lit '' | '') d @ nl) else skip))"

text \<open>The body of the table loop (lines 12 to 17).\<close>

definition table_step :: "table \<Rightarrow> unit prog" where
  "table_step t = seq (call (rows t)) (\<lambda>rs. for_each rs row_step)"

definition read_docx :: "env \<Rightarrow> str \<Rightarrow> unit prog" where
  "read_docx E path =
     seq (out_write (lit ''--- DOCX: '' @ path @ lit '' ---'' @ nl)) (\<lambda>_.
     seq (call (Document E path)) (\<lambda>doc.
     seq (call (paragraphs doc)) (\<lambda>ps.
     seq (for_each ps paragraph_step) (\<lambda>_.
     seq (call (tables doc)) (\<lambda>ts.
     for_each ts table_step)))))"

section \<open>\<^verbatim>\<open>read_xlsx\<close>\<close>

text \<open>The body of the element loop (lines 29 and 30).\<close>

definition elem_step :: "element \<Rightarrow> unit prog" where
  "elem_step elem =
     (case elem_text elem of
        None \<Rightarrow> skip
      | Some t \<Rightarrow> if t \<noteq> [] \<and> strip t \<noteq> [] then out_write (strip t @ nl) else skip)"

text \<open>The body of the entry loop (lines 24 to 32).\<close>

definition entry_step :: "env \<Rightarrow> archive \<Rightarrow> str \<Rightarrow> unit prog" where
  "entry_step E z filename =
     (if endswith filename (lit ''.xml'') then
        try_except
          (seq (call (read z filename)) (\<lambda>xml_content.
           seq (call (fromstring E xml_content)) (\<lambda>root.
           for_each (iter root) elem_step)))
          (\<lambda>_. skip)
      else skip)"

definition read_xlsx :: "env \<Rightarrow> str \<Rightarrow> unit prog" where
  "read_xlsx E path =
     seq (out_write (nl @ lit ''--- XLSX: '' @ path @ lit '' ---'' @ nl)) (\<lambda>_.
     try_except
       (seq (call (ZipFile E path)) (\<lambda>z. for_each (namelist z) (entry_step E z)))
       (\<lambda>e. out_write (lit ''Failed to read xlsx: '' @ str_of e @ nl)))"

section \<open>The driver\<close>

text \<open>The directory \<^verbatim>\<open>e:\<close>, backslash, four Arabic letters, backslash.\<close>

definition base_dir :: str where
  "base_dir = lit ''e:'' @ [92, 1605, 1581, 1585, 1585, 92]"

definition out_path :: str where
  "out_path = base_dir @ lit ''extracted_text.txt''"

definition docx_path :: str where
  "docx_path = base_dir @ lit ''docs'' @ [92] @ lit ''competitive-analysis-avan-titre.docx''"

definition xlsx_path :: str where
  "xlsx_path = base_dir @ lit ''docs'' @ [92] @ lit ''competitive-analysis-avan-titre.xlsx''"

text \<open>
  What a run leaves: the text of \<^verbatim>\<open>extracted_text.txt\<close> and the exit status of the
  process, 1 when an exception reaches the top level and 0 otherwise.
\<close>

record outcome =
  out_text :: str
  status :: nat

text \<open>
  The \<^verbatim>\<open>open\<close> of line 37 is the first statement and has no handler. When it raises,
  nothing has been called and the file is as it was. When it returns, mode \<^verbatim>\<open>"w"\<close> has
  emptied the file, the two extractors run on it, and the \<^verbatim>\<open>with\<close> block closes the
  file on every exit, so all that was written is in it.
\<close>

definition main :: "env \<Rightarrow> str \<Rightarrow> outcome" where
  "main E old =
     (case open_w E out_path of
        Inl e \<Rightarrow> \<lparr>out_text = old, status = 1\<rparr>
      | Inr _ \<Rightarrow>
          (case seq (read_docx E docx_path) (\<lambda>_. read_xlsx E xlsx_path) [] of
             (Inl e, f) \<Rightarrow> \<lparr>out_text = f, status = 1\<rparr>
           | (Inr _, f) \<Rightarrow> \<lparr>out_text = f, status = 0\<rparr>))"

section \<open>Notions used to state the properties\<close>

text \<open>The text a statement appends to an empty stream.\<close>

definition written :: "'a prog \<Rightarrow> str" where
  "written m = snd (m [])"

text \<open>
  A statement whose result and written text do not depend on the text before it: it only
  appends.
\<close>

definition appends :: "'a prog \<Rightarrow> bool" where
  "appends m = (\<forall>out. m out = (fst (m []), out @ snd (m [])))"

text \<open>
  Every read of the document succeeds: the two lists, the text of every paragraph, the
  rows of every table, the cells of every row and the text of every cell.
\<close>

definition par_ok :: "par \<Rightarrow> bool" where
  "par_ok p = (\<not> isl (par_text p))"

definition cell_ok :: "cell \<Rightarrow> bool" where
  "cell_ok c = (\<not> isl (cell_text c))"

definition row_ok :: "row \<Rightarrow> bool" where
  "row_ok r = (case cells r of Inl _ \<Rightarrow> False | Inr cs \<Rightarrow> list_all cell_ok cs)"

definition table_ok :: "table \<Rightarrow> bool" where
  "table_ok t = (case rows t of Inl _ \<Rightarrow> False | Inr rs \<Rightarrow> list_all row_ok rs)"

definition docx_ok :: "document \<Rightarrow> bool" where
  "docx_ok doc =
     (case paragraphs doc of
        Inl _ \<Rightarrow> False
      | Inr ps \<Rightarrow> list_all par_ok ps \<and>
          (case tables doc of Inl _ \<Rightarrow> False | Inr ts \<Rightarrow> list_all table_ok ts))"

text \<open>The normalised cell strings of a row whose reads succeed.\<close>

definition row_strings :: "row \<Rightarrow> str list" where
  "row_strings r = map (\<lambda>c. strip (replace_nl (projr (cell_text c)))) (projr (cells r))"

text \<open>
  Document order, told apart from \<open>iter\<close>: a depth-first walk with an explicit stack of
  the subtrees still to visit, the children of a node pushed in their order.
\<close>

fun nodes :: "element \<Rightarrow> nat" where
  "nodes (Element t cs ta) = Suc (sum_list (map nodes cs))"

function spec_dfs :: "element list \<Rightarrow> element list" where
  "spec_dfs [] = []"
| "spec_dfs (e # stack) = e # spec_dfs (children e @ stack)"
  by pat_completeness auto
termination
  by (relation "measure (\<lambda>stack. sum_list (map nodes stack))") (auto, case_tac e, simp)

text \<open>The same tree with every \<^verbatim>\<open>.tail\<close> set to \<^verbatim>\<open>None\<close>.\<close>

fun erase_tails :: "element \<Rightarrow> element" where
  "erase_tails (Element t cs ta) = Element t (map erase_tails cs) None"

section \<open>Example inputs\<close>

text \<open>
  A document of three paragraphs (one padded, one of blanks only) and one table of two
  rows, the second with blank cells only.
\<close>

definition ex_doc :: document where
  "ex_doc =
     \<lparr>paragraphs = Inr [Paragraph (Inr (lit '' Title '')), Paragraph (Inr (lit ''   '')),
                        Paragraph (Inr (lit ''Body''))],
      tables = Inr [Table (Inr
        [Row (Inr [Cell (Inr (lit ''a'')), Cell (Inr []), Cell (Inr (lit '' b'' @ nl @ lit ''c ''))]),
         Row (Inr [Cell (Inr (lit '' '')), Cell (Inr nl)])])]\<rparr>"

text \<open>
  The same paragraphs and a table whose second row has a cell that cannot be read; a
  third row follows.
\<close>

definition ex_doc_broken :: document where
  "ex_doc_broken =
     \<lparr>paragraphs = Inr [Paragraph (Inr (lit '' Title '')), Paragraph (Inr (lit ''   '')),
                        Paragraph (Inr (lit ''Body''))],
      tables = Inr [Table (Inr
        [Row (Inr [Cell (Inr (lit ''a'')), Cell (Inr []), Cell (Inr (lit '' b'' @ nl @ lit ''c ''))]),
         Row (Inr [Cell (Inr (lit ''x'')), Cell (Inl (Exception (lit ''rId7'')))]),
         Row (Inr [Cell (Inr (lit ''y''))])])]\<rparr>"

text \<open>
  An archive of four entries: one that is not well-formed, one with a text node, one
  whose name does not end in \<^verbatim>\<open>.xml\<close>, and a sheet.
\<close>

definition ex_archive :: archive where
  "ex_archive =
     \<lparr>namelist = [lit ''bad.xml'', lit ''xl/sharedStrings.xml'', lit ''docProps/thumbnail.jpeg'',
                  lit ''xl/worksheets/sheet1.xml''],
      read = (\<lambda>n. if n = lit ''bad.xml'' then Inr ''<sst><si>''
                 else if n = lit ''xl/sharedStrings.xml'' then Inr ''<sst><si><t>Revenue</t></si>  2024 </sst>''
                 else if n = lit ''docProps/thumbnail.jpeg'' then Inr ''JFIF''
                 else if n = lit ''xl/worksheets/sheet1.xml'' then Inr ''<sheet/>''
                 else Inl (Exception (lit ''There is no item named that in the archive'')))\<rparr>"

text \<open>The tree of the second entry: the text \<^verbatim>\<open>2024\<close> is the tail of \<^verbatim>\<open>si\<close>.\<close>

definition ex_root :: element where
  "ex_root =
     Element None [Element None [Element (Some (lit ''Revenue'')) [] None] (Some (lit ''  2024 ''))] None"

text \<open>
  The tree of the sheet: a root with padded text and four children, the first with a
  child of its own, the second of blanks only, the third without text. In document order
  the texts are \<^verbatim>\<open>A\<close>, \<^verbatim>\<open>B\<close>, \<^verbatim>\<open>C\<close>, \<^verbatim>\<open>D\<close>; level by level they would be
  \<^verbatim>\<open>A\<close>, \<^verbatim>\<open>B\<close>, \<^verbatim>\<open>D\<close>, \<^verbatim>\<open>C\<close>.
\<close>

definition ex_sheet :: element where
  "ex_sheet =
     Element (Some (lit '' A ''))
       [Element (Some (lit ''B'' @ nl)) [Element (Some ([9] @ lit ''C'')) [] (Some (lit ''t1''))] None,
        Element (Some (lit ''  '')) [] None,
        Element None [] None,
        Element (Some (lit ''D'')) [] (Some (lit '' t2 ''))]
       None"

definition ex_fromstring :: "bytes \<Rightarrow> exn + element" where
  "ex_fromstring b =
     (if b = ''<sst><si><t>Revenue</t></si>  2024 </sst>'' then Inr ex_root
      else if b = ''<t>Revenue</t>'' then Inr (Element (Some (lit ''Revenue'')) [] None)
      else if b = ''<sheet/>'' then Inr ex_sheet
      else Inl (Exception (lit ''no element found'')))"

definition ex_env :: env where
  "ex_env =
     \<lparr>Document = (\<lambda>p. if p = docx_path then Inr ex_doc else Inl (Exception (lit ''Package not found''))),
      ZipFile = (\<lambda>p. if p = xlsx_path then Inr ex_archive else Inl (Exception (lit ''No such file''))),
      fromstring = ex_fromstring,
      open_w = (\<lambda>p. if p = out_path then Inr () else Inl (Exception (lit ''Permission denied'')))\<rparr>"

text \<open>
  The same, with a spreadsheet that is not a zip file, with no document, with the
  document that cannot be read to its end, and with an output file that cannot be opened.
\<close>

definition ex_env_bad_xlsx :: env where
  "ex_env_bad_xlsx = ex_env\<lparr>ZipFile := (\<lambda>p. Inl (Exception (lit ''File is not a zip file'')))\<rparr>"

definition ex_env_bad_docx :: env where
  "ex_env_bad_docx = ex_env\<lparr>Document := (\<lambda>p. Inl (Exception (lit ''Package not found'')))\<rparr>"


definition ex_env_no_output :: env where
  "ex_env_no_output = ex_env\<lparr>open_w := (\<lambda>p. Inl (Exception (lit ''Permission denied'')))\<rparr>"

text \<open>An archive of two entries, the first not well-formed.\<close>

definition ex_archive_two :: archive where
  "ex_archive_two =
     \<lparr>namelist = [lit ''bad.xml'', lit ''good.xml''],
      read = (\<lambda>n. if n = lit ''bad.xml'' then Inr ''<sst><si>''
                 else if n = lit ''good.xml'' then Inr ''<t>Revenue</t>''
                 else Inl (Exception (lit ''There is no item named that in the archive'')))\<rparr>"

definition ex_env_two :: env where
  "ex_env_two = ex_env\<lparr>ZipFile := (\<lambda>p. Inr ex_archive_two)\<rparr>"

text \<open>The first archive with an unreadable picture, and the second tree without its tail.\<close>

definition ex_archive_no_jpeg :: archive where
  "ex_archive_no_jpeg =
     ex_archive\<lparr>read := (\<lambda>n. if n = lit ''docProps/thumbnail.jpeg''
                              then Inl (Exception (lit ''Bad CRC-32'')) else read ex_archive n)\<rparr>"

definition ex_root_no_tail :: element where
  "ex_root_no_tail = Element None [Element None [Element (Some (lit ''Revenue'')) [] None] None] None"

definition ex_env_no_tail :: env where
  "ex_env_no_tail = ex_env\<lparr>fromstring := (\<lambda>b. Inr ex_root_no_tail)\<rparr>"

text \<open>The first environment seen from another directory: every other path differs.\<close>

definition ex_env_elsewhere :: env where
  "ex_env_elsewhere =
     ex_env\<lparr>Document := (\<lambda>p. if p = docx_path then Inr ex_doc else Inr \<lparr>paragraphs = Inr [], tables = Inr []\<rparr>),
            ZipFile := (\<lambda>p. if p = xlsx_path then Inr ex_archive else Inr ex_archive_two)\<rparr>"

section \<open>Facts about the statements\<close>

lemma skip_is_write: "skip = out_write []"
  by (rule ext) (simp add: skip_def out_write_def)

lemma seq_write: "seq (out_write s) f out = f () (out @ s)"
  by (simp add: seq_def out_write_def)

lemma for_each_write:
  "for_each xs (\<lambda>x. out_write (g x)) = out_write (concat (map g xs))"
proof (induction xs)
  case Nil
  show ?case by (simp add: skip_is_write)
next
  case (Cons x xs)
  show ?case
    by (rule ext) (simp add: Cons.IH seq_write, simp add: out_write_def)
qed

lemma for_each_body_write:
  assumes "\<And>x. body x = out_write (g x)"
  shows "for_each xs body = out_write (concat (map g xs))"
proof -
  have "body = (\<lambda>x. out_write (g x))" using assms by (rule ext)
  then show ?thesis by (simp add: for_each_write)
qed

lemma written_write: "written (out_write s) = s"
  by (simp add: written_def out_write_def)

lemma concat_map_if:
  "concat (map (\<lambda>x. if P x then f x else []) xs) = concat (map f (filter P xs))"
  by (induction xs) auto

section \<open>Facts about \<^verbatim>\<open>strip\<close>\<close>

lemma strip_Nil: "strip [] = []"
  by (simp add: strip_def)

lemma strip_all_space: "\<forall>c\<in>set s. is_space c \<Longrightarrow> strip s = []"
proof -
  assume "\<forall>c\<in>set s. is_space c"
  then have d: "dropWhile is_space s = []" by (induction s) auto
  show ?thesis unfolding strip_def d by simp
qed

text \<open>\<open>strip\<close> removes white space only, and only at the two ends.\<close>

lemma strip_decomp:
  "\<exists>a b. s = a @ strip s @ b \<and> (\<forall>c\<in>set a. is_space c) \<and> (\<forall>c\<in>set b. is_space c)"
proof -
  let ?a = "takeWhile is_space s"
  let ?m = "dropWhile is_space s"
  let ?b = "rev (takeWhile is_space (rev ?m))"
  have "rev ?m = takeWhile is_space (rev ?m) @ dropWhile is_space (rev ?m)" by simp
  then have "?m = rev (dropWhile is_space (rev ?m)) @ ?b"
    by (metis rev_append rev_rev_ident)
  then have "s = ?a @ strip s @ ?b"
    by (metis strip_def takeWhile_dropWhile_id)
  moreover have "\<forall>c\<in>set ?a. is_space c" by (metis set_takeWhileD)
  moreover have "\<forall>c\<in>set ?b. is_space c" by (metis set_rev set_takeWhileD)
  ultimately show ?thesis by blast
qed

text \<open>What is left neither starts nor ends with white space.\<close>

lemma strip_ends:
  assumes "strip s \<noteq> []"
  shows "\<not> is_space (hd (strip s)) \<and> \<not> is_space (last (strip s))"
proof -
  let ?m = "dropWhile is_space s"
  let ?r = "dropWhile is_space (rev ?m)"
  have r: "?r \<noteq> []" using assms by (simp add: strip_def)
  then have m: "?m \<noteq> []" by (metis dropWhile.simps(1) rev.simps(1))
  have "last (strip s) = hd ?r" using r by (simp add: strip_def last_rev)
  then have l: "\<not> is_space (last (strip s))" using r by (simp add: hd_dropWhile)
  have "rev ?m = takeWhile is_space (rev ?m) @ ?r" by simp
  then have "?m = strip s @ rev (takeWhile is_space (rev ?m))"
    unfolding strip_def by (metis rev_append rev_rev_ident)
  then have "hd ?m = hd (strip s)" using assms by (metis hd_append2)
  then have "\<not> is_space (hd (strip s))" using m by (metis hd_dropWhile)
  with l show ?thesis by simp
qed

lemma replace_nl_all_space: "\<forall>c\<in>set s. is_space c \<Longrightarrow> \<forall>c\<in>set (replace_nl s). is_space c"
  by (auto simp add: replace_nl_def is_space_def)


lemma seq_call_Inr: "seq (call (Inr x)) f = f x"
  by (rule ext) (simp add: seq_def call_def)

lemma seq_call_Inl: "seq (call (Inl e)) f out = (Inl e, out)"
  by (simp add: seq_def call_def)

lemma for_each_body_write_on:
  "(\<And>x. x \<in> set xs \<Longrightarrow> body x = out_write (g x)) \<Longrightarrow>
     for_each xs body = out_write (concat (map g xs))"
proof (induction xs)
  case Nil
  show ?case by (simp add: skip_is_write)
next
  case (Cons x xs)
  have "body x = out_write (g x)" by (simp add: Cons.prems)
  moreover have "for_each xs body = out_write (concat (map g xs))"
    by (rule Cons.IH) (simp add: Cons.prems)
  ultimately show ?case
    by (intro ext) (simp add: seq_write, simp add: out_write_def)
qed

section \<open>Statements that only append\<close>

lemma appends_run: "appends m \<Longrightarrow> m out = (fst (m []), out @ written m)"
  unfolding appends_def written_def by blast

lemma appends_write: "appends (out_write s)"
  by (simp add: appends_def out_write_def)

lemma appends_skip: "appends skip"
  by (simp add: appends_def skip_def)

lemma appends_call: "appends (call r)"
  by (simp add: appends_def call_def)

lemma seq_run:
  assumes "appends m" and "\<And>x. appends (f x)"
  shows "seq m f out =
    (case fst (m []) of
       Inl e \<Rightarrow> (Inl e, out @ written m)
     | Inr x \<Rightarrow> (fst (f x []), out @ written m @ written (f x)))"
proof (cases "fst (m [])")
  case (Inl e)
  then show ?thesis by (simp add: seq_def appends_run[OF assms(1), of out])
next
  case (Inr x)
  then show ?thesis
    by (simp add: seq_def appends_run[OF assms(1), of out] appends_run[OF assms(2), of x "out @ written m"])
qed

lemma appends_seq:
  assumes "appends m" and "\<And>x. appends (f x)"
  shows "appends (seq m f)"
  unfolding appends_def
  by (simp add: seq_run[OF assms] split: sum.split)

lemma try_run:
  assumes "appends m" and "\<And>e. appends (h e)"
  shows "try_except m h out =
    (case fst (m []) of
       Inl e \<Rightarrow> (fst (h e []), out @ written m @ written (h e))
     | Inr x \<Rightarrow> (Inr x, out @ written m))"
proof (cases "fst (m [])")
  case (Inl e)
  then show ?thesis
    by (simp add: try_except_def appends_run[OF assms(1), of out] appends_run[OF assms(2), of e "out @ written m"])
next
  case (Inr x)
  then show ?thesis by (simp add: try_except_def appends_run[OF assms(1), of out])
qed

lemma appends_try:
  assumes "appends m" and "\<And>e. appends (h e)"
  shows "appends (try_except m h)"
  unfolding appends_def
  by (simp add: try_run[OF assms] split: sum.split)

lemma appends_for_each:
  assumes "\<And>x. appends (body x)"
  shows "appends (for_each xs body)"
  by (induction xs) (simp_all add: appends_skip appends_seq assms)

lemma for_each_returns:
  assumes "\<And>x. appends (body x)"
  shows "(fst (for_each xs body out) = Inr ()) = list_all (\<lambda>x. fst (body x []) = Inr ()) xs"
proof (induction xs arbitrary: out)
  case Nil
  show ?case by (simp add: skip_def)
next
  case (Cons x xs)
  show ?case
    by (simp add: seq_run[OF assms appends_for_each[OF assms]] Cons.IH split: sum.split)
qed

section \<open>The loop bodies of \<^verbatim>\<open>read_docx\<close>\<close>

lemma appends_paragraph_step: "appends (paragraph_step p)"
  unfolding paragraph_step_def
  by (intro appends_seq appends_call) (simp add: appends_seq appends_call appends_write appends_skip)

lemma appends_row_data: "appends (row_data cs acc)"
  by (induction cs arbitrary: acc) (simp_all add: appends_call appends_seq)

lemma appends_row_step: "appends (row_step r)"
  unfolding row_step_def
  by (intro appends_seq appends_call appends_row_data) (simp add: appends_write appends_skip)

lemma appends_table_step: "appends (table_step t)"
  unfolding table_step_def
  by (intro appends_seq appends_call appends_for_each appends_row_step)

lemma appends_read_docx: "appends (read_docx E path)"
  unfolding read_docx_def
  by (intro appends_seq appends_call appends_write appends_for_each
      appends_paragraph_step appends_table_step)

lemma paragraph_step_ok:
  "par_text p = Inr t \<Longrightarrow>
     paragraph_step p = out_write (if strip t \<noteq> [] then t @ nl else [])"
  by (simp add: paragraph_step_def seq_call_Inr skip_is_write)

lemma paragraph_step_fail: "par_text p = Inl e \<Longrightarrow> paragraph_step p out = (Inl e, out)"
  by (simp add: paragraph_step_def seq_call_Inl)

lemma paragraph_step_returns: "(fst (paragraph_step p []) = Inr ()) = par_ok p"
  by (cases "par_text p")
    (simp_all add: paragraph_step_fail paragraph_step_ok par_ok_def out_write_def)

lemma row_data_ok:
  "list_all cell_ok cs \<Longrightarrow>
     row_data cs acc = call (Inr (acc @ map (\<lambda>c. strip (replace_nl (projr (cell_text c)))) cs))"
proof (induction cs arbitrary: acc)
  case Nil
  show ?case by simp
next
  case (Cons c cs)
  then obtain t where t: "cell_text c = Inr t"
    by (cases "cell_text c") (simp_all add: cell_ok_def)
  from Cons.prems have "list_all cell_ok cs" by simp
  then show ?case by (simp add: t seq_call_Inr Cons.IH)
qed

lemma row_data_fail:
  "\<not> list_all cell_ok cs \<Longrightarrow> \<exists>e. row_data cs acc out = (Inl e, out)"
proof (induction cs arbitrary: acc)
  case Nil
  then show ?case by simp
next
  case (Cons c cs)
  show ?case
  proof (cases "cell_text c")
    case (Inl e)
    then show ?thesis by (simp add: seq_call_Inl)
  next
    case (Inr t)
    then have "cell_ok c" by (simp add: cell_ok_def)
    with Cons.prems have "\<not> list_all cell_ok cs" by simp
    then show ?thesis by (simp add: Inr seq_call_Inr Cons.IH)
  qed
qed

lemma row_step_ok:
  "row_ok r \<Longrightarrow>
     row_step r = out_write (if any (row_strings r) then join (lit '' | '') (row_strings r) @ nl else [])"
proof -
  assume "row_ok r"
  then obtain cs where cs: "cells r = Inr cs" "list_all cell_ok cs"
    by (cases "cells r") (simp_all add: row_ok_def)
  show ?thesis
    by (simp add: row_step_def cs seq_call_Inr row_data_ok row_strings_def skip_is_write)
qed

lemma row_step_fail: "\<not> row_ok r \<Longrightarrow> \<exists>e. row_step r out = (Inl e, out)"
proof (cases "cells r")
  case (Inl e)
  then show ?thesis by (simp add: row_step_def seq_call_Inl)
next
  case (Inr cs)
  assume "\<not> row_ok r"
  with Inr have "\<not> list_all cell_ok cs" by (simp add: row_ok_def)
  then obtain e where "row_data cs [] out = (Inl e, out)"
    using row_data_fail by blast
  then show ?thesis by (simp add: row_step_def Inr seq_call_Inr seq_def)
qed

lemma row_step_returns: "(fst (row_step r []) = Inr ()) = row_ok r"
proof (cases "row_ok r")
  case True
  then show ?thesis by (simp add: row_step_ok out_write_def)
next
  case False
  then obtain e where "row_step r [] = (Inl e, [])" using row_step_fail by blast
  with False show ?thesis by simp
qed

lemma table_step_ok:
  "table_ok t \<Longrightarrow>
     table_step t = out_write (concat (map
       (\<lambda>r. if any (row_strings r) then join (lit '' | '') (row_strings r) @ nl else [])
       (projr (rows t))))"
proof -
  assume "table_ok t"
  then obtain rs where rs: "rows t = Inr rs" "list_all row_ok rs"
    by (cases "rows t") (simp_all add: table_ok_def)
  have "for_each rs row_step = out_write (concat (map
       (\<lambda>r. if any (row_strings r) then join (lit '' | '') (row_strings r) @ nl else []) rs))"
    using rs(2) by (intro for_each_body_write_on row_step_ok) (simp add: list_all_iff)
  then show ?thesis by (simp add: table_step_def rs(1) seq_call_Inr)
qed

lemma table_step_returns: "(fst (table_step t []) = Inr ()) = table_ok t"
proof (cases "rows t")
  case (Inl e)
  then show ?thesis by (simp add: table_step_def seq_call_Inl table_ok_def)
next
  case (Inr rs)
  have "(fst (for_each rs row_step []) = Inr ()) = list_all row_ok rs"
    by (simp add: for_each_returns[OF appends_row_step] row_step_returns)
  then show ?thesis by (simp add: table_step_def Inr seq_call_Inr table_ok_def)
qed

section \<open>The loop bodies of \<^verbatim>\<open>read_xlsx\<close> only write\<close>

lemma elem_step_write:
  "elem_step e =
     out_write (case elem_text e of None \<Rightarrow> [] | Some t \<Rightarrow> if strip t \<noteq> [] then strip t @ nl else [])"
  by (auto simp add: elem_step_def skip_is_write strip_Nil split: option.splits)

lemma entry_step_write:
  "entry_step E z n = out_write
     (if endswith n (lit ''.xml'') then
        (case read z n of Inl _ \<Rightarrow> [] | Inr b \<Rightarrow>
           (case fromstring E b of Inl _ \<Rightarrow> [] | Inr root \<Rightarrow> written (for_each (iter root) elem_step)))
      else [])"
  by (rule ext)
    (simp add: entry_step_def skip_is_write try_except_def seq_def call_def written_def
      for_each_body_write[OF elem_step_write] out_write_def split: sum.splits)


section \<open>The two extractors and the driver\<close>

lemma read_docx_fail:
  "Document E path = Inl e \<Longrightarrow>
     read_docx E path out = (Inl e, out @ lit ''--- DOCX: '' @ path @ lit '' ---'' @ nl)"
  by (simp add: read_docx_def seq_write seq_call_Inl)

lemma paragraphs_write:
  "list_all par_ok ps \<Longrightarrow>
     for_each ps paragraph_step =
       out_write (concat (map (\<lambda>p. projr (par_text p) @ nl)
         (filter (\<lambda>p. strip (projr (par_text p)) \<noteq> []) ps)))"
proof -
  assume ok: "list_all par_ok ps"
  have "paragraph_step p =
      out_write (if strip (projr (par_text p)) \<noteq> [] then projr (par_text p) @ nl else [])"
    if "p \<in> set ps" for p
  proof -
    from that ok have "par_ok p" by (simp add: list_all_iff)
    then obtain t where "par_text p = Inr t"
      by (cases "par_text p") (simp_all add: par_ok_def)
    then show ?thesis by (simp add: paragraph_step_ok)
  qed
  then have "for_each ps paragraph_step =
      out_write (concat (map
        (\<lambda>p. if strip (projr (par_text p)) \<noteq> [] then projr (par_text p) @ nl else []) ps))"
    by (rule for_each_body_write_on)
  then show ?thesis by (simp add: concat_map_if)
qed

lemma tables_write:
  "list_all table_ok ts \<Longrightarrow>
     for_each ts table_step =
       out_write (concat (map (\<lambda>r. join (lit '' | '') (row_strings r) @ nl)
         (filter (\<lambda>r. any (row_strings r)) (concat (map (\<lambda>t. projr (rows t)) ts)))))"
proof -
  assume ok: "list_all table_ok ts"
  have "for_each ts table_step =
      out_write (concat (map (\<lambda>t. concat (map
        (\<lambda>r. if any (row_strings r) then join (lit '' | '') (row_strings r) @ nl else [])
        (projr (rows t)))) ts))"
    using ok by (intro for_each_body_write_on table_step_ok) (simp add: list_all_iff)
  also have "concat (map (\<lambda>t. concat (map
        (\<lambda>r. if any (row_strings r) then join (lit '' | '') (row_strings r) @ nl else [])
        (projr (rows t)))) ts) =
      concat (map (\<lambda>r. join (lit '' | '') (row_strings r) @ nl)
         (filter (\<lambda>r. any (row_strings r)) (concat (map (\<lambda>t. projr (rows t)) ts))))"
    by (induction ts) (simp_all add: concat_map_if)
  finally show ?thesis .
qed

lemma read_docx_pars:
  "Document E path = Inr doc \<Longrightarrow> paragraphs doc = Inr ps \<Longrightarrow> list_all par_ok ps \<Longrightarrow>
     read_docx E path out =
       seq (call (tables doc)) (\<lambda>ts. for_each ts table_step)
         (out @ lit ''--- DOCX: '' @ path @ lit '' ---'' @ nl
            @ concat (map (\<lambda>p. projr (par_text p) @ nl)
                (filter (\<lambda>p. strip (projr (par_text p)) \<noteq> []) ps)))"
  by (simp add: read_docx_def seq_write seq_call_Inr paragraphs_write)

lemma appends_tables: "appends (seq (call (tables doc)) (\<lambda>ts. for_each ts table_step))"
  by (intro appends_seq appends_call appends_for_each appends_table_step)

lemma read_docx_ok:
  "Document E path = Inr doc \<Longrightarrow> docx_ok doc \<Longrightarrow>
     read_docx E path out =
       (Inr (), out @ lit ''--- DOCX: '' @ path @ lit '' ---'' @ nl
          @ concat (map (\<lambda>p. projr (par_text p) @ nl)
              (filter (\<lambda>p. strip (projr (par_text p)) \<noteq> []) (projr (paragraphs doc))))
          @ concat (map (\<lambda>r. join (lit '' | '') (row_strings r) @ nl)
              (filter (\<lambda>r. any (row_strings r))
                (concat (map (\<lambda>t. projr (rows t)) (projr (tables doc)))))))"
proof -
  assume d: "Document E path = Inr doc" and ok: "docx_ok doc"
  from ok obtain ps where ps: "paragraphs doc = Inr ps" "list_all par_ok ps"
    by (cases "paragraphs doc") (simp_all add: docx_ok_def)
  from ok ps obtain ts where ts: "tables doc = Inr ts" "list_all table_ok ts"
    by (cases "tables doc") (simp_all add: docx_ok_def)
  show ?thesis
    by (simp add: read_docx_pars[OF d ps] ps(1) ts(1) seq_call_Inr tables_write[OF ts(2)])
      (simp add: out_write_def)
qed

lemma read_docx_returns:
  "(fst (read_docx E path out) = Inr ()) = (\<exists>doc. Document E path = Inr doc \<and> docx_ok doc)"
proof (cases "Document E path")
  case (Inl e)
  then show ?thesis by (simp add: read_docx_fail)
next
  case (Inr doc)
  have "(fst (read_docx E path out) = Inr ()) = docx_ok doc"
  proof (cases "paragraphs doc")
    case (Inl e)
    then show ?thesis
      by (simp add: read_docx_def seq_write Inr seq_call_Inr seq_call_Inl docx_ok_def)
  next
    case ps: (Inr ps)
    show ?thesis
    proof (cases "list_all par_ok ps")
      case False
      then have n: "fst (for_each ps paragraph_step x) \<noteq> Inr ()" for x
        by (simp add: for_each_returns[OF appends_paragraph_step] paragraph_step_returns)
      have "fst (seq (for_each ps paragraph_step) f x) \<noteq> Inr ()" for f :: "unit \<Rightarrow> unit prog" and x
      proof -
        obtain r b where rb: "for_each ps paragraph_step x = (r, b)"
          by (cases "for_each ps paragraph_step x")
        with n[of x] have "r \<noteq> Inr ()" by simp
        then obtain e where "r = Inl e" by (cases r) auto
        with rb show ?thesis by (simp add: seq_def)
      qed
      then show ?thesis
        using False by (simp add: read_docx_def seq_write Inr seq_call_Inr ps docx_ok_def)
    next
      case True
      show ?thesis
      proof (cases "tables doc")
        case (Inl e)
        then show ?thesis
          by (simp add: read_docx_pars[OF Inr ps True] seq_call_Inl docx_ok_def ps)
      next
        case ts: (Inr ts)
        have "(fst (for_each ts table_step x) = Inr ()) = list_all table_ok ts" for x
          by (simp add: for_each_returns[OF appends_table_step] table_step_returns)
        then show ?thesis
          by (simp add: read_docx_pars[OF Inr ps True] ts seq_call_Inr docx_ok_def ps True)
      qed
    qed
  qed
  then show ?thesis by (simp add: Inr)
qed

lemma read_xlsx_fail:
  "ZipFile E path = Inl e \<Longrightarrow>
     read_xlsx E path out =
       (Inr (), out @ nl @ lit ''--- XLSX: '' @ path @ lit '' ---'' @ nl
          @ lit ''Failed to read xlsx: '' @ str_of e @ nl)"
  by (simp add: read_xlsx_def seq_write) (simp add: try_except_def seq_def call_def out_write_def)

lemma read_xlsx_ok:
  "ZipFile E path = Inr z \<Longrightarrow>
     read_xlsx E path out =
       (Inr (), out @ nl @ lit ''--- XLSX: '' @ path @ lit '' ---'' @ nl
          @ written (for_each (namelist z) (entry_step E z)))"
  by (simp add: read_xlsx_def seq_write written_write for_each_body_write[OF entry_step_write])
     (simp add: try_except_def seq_def call_def out_write_def)

lemma read_xlsx_returns: "fst (read_xlsx E path out) = Inr ()"
  by (cases "ZipFile E path") (simp_all add: read_xlsx_fail read_xlsx_ok)


lemma main_no_output:
  "open_w E out_path = Inl e \<Longrightarrow> main E old = \<lparr>out_text = old, status = 1\<rparr>"
  by (simp add: main_def)

lemma main_docx_raises:
  "open_w E out_path = Inr () \<Longrightarrow> fst (read_docx E docx_path []) = Inl e \<Longrightarrow>
     main E old = \<lparr>out_text = snd (read_docx E docx_path []), status = 1\<rparr>"
  by (cases "read_docx E docx_path []") (simp add: main_def seq_def)

lemma main_docx_returns:
  "open_w E out_path = Inr () \<Longrightarrow> fst (read_docx E docx_path []) = Inr () \<Longrightarrow>
     main E old =
       \<lparr>out_text = snd (read_xlsx E xlsx_path (snd (read_docx E docx_path []))), status = 0\<rparr>"
proof -
  assume o: "open_w E out_path = Inr ()" and r: "fst (read_docx E docx_path []) = Inr ()"
  obtain f where f: "read_docx E docx_path [] = (Inr (), f)"
    using r by (cases "read_docx E docx_path []") simp
  obtain g where g: "read_xlsx E xlsx_path f = (Inr (), g)"
    using read_xlsx_returns[of E xlsx_path f] by (cases "read_xlsx E xlsx_path f") simp
  show ?thesis by (simp add: main_def o seq_def f g)
qed

section \<open>The example documents\<close>

lemma ex_strips:
  "strip (lit '' Title '') = lit ''Title''"
  "strip (lit ''   '') = []"
  "strip (lit ''Body'') = lit ''Body''"
  "strip (lit ''Revenue'') = lit ''Revenue''"
  "lit ''Title'' \<noteq> []" "lit ''Body'' \<noteq> []" "lit ''Revenue'' \<noteq> []"
  by (simp_all add: strip_def is_space_def lit_def)

lemma ex_doc_ok: "docx_ok ex_doc"
  by (simp add: docx_ok_def ex_doc_def par_ok_def table_ok_def row_ok_def cell_ok_def)

lemma ex_doc_broken_not_ok: "\<not> docx_ok ex_doc_broken"
  by (simp add: docx_ok_def ex_doc_broken_def par_ok_def table_ok_def row_ok_def cell_ok_def)

lemma ex_first_row:
  "row_step (Row (Inr [Cell (Inr (lit ''a'')), Cell (Inr []), Cell (Inr (lit '' b'' @ nl @ lit ''c ''))])) out =
     (Inr (), out @ lit ''a |  | b c'' @ nl)"
proof -
  let ?r = "Row (Inr [Cell (Inr (lit ''a'')), Cell (Inr []), Cell (Inr (lit '' b'' @ nl @ lit ''c ''))])"
  have ok: "row_ok ?r" by (simp add: row_ok_def cell_ok_def)
  have s: "row_strings ?r = [lit ''a'', [], lit ''b c'']"
    by (simp add: row_strings_def strip_def replace_nl_def is_space_def lit_def nl_def)
  show ?thesis
    by (simp add: row_step_ok[OF ok] s out_write_def any_def) (simp add: lit_def)
qed

lemma ex_blank_row:
  "row_step (Row (Inr [Cell (Inr (lit '' '')), Cell (Inr nl)])) out = (Inr (), out)"
proof -
  let ?r = "Row (Inr [Cell (Inr (lit '' '')), Cell (Inr nl)])"
  have ok: "row_ok ?r" by (simp add: row_ok_def cell_ok_def)
  have s: "row_strings ?r = [[], []]"
    by (simp add: row_strings_def strip_def replace_nl_def is_space_def lit_def nl_def)
  show ?thesis by (simp add: row_step_ok[OF ok] s out_write_def any_def)
qed

lemma ex_doc_tables:
  "seq (call (tables ex_doc)) (\<lambda>ts. for_each ts table_step) out = (Inr (), out @ lit ''a |  | b c'' @ nl)"
  by (simp add: ex_doc_def seq_call_Inr table_step_def ex_first_row ex_blank_row seq_def skip_def)


lemma ex_doc_run:
  "read_docx ex_env docx_path out =
     (Inr (), out @ lit ''--- DOCX: '' @ docx_path @ lit '' ---'' @ nl
        @ lit '' Title '' @ nl @ lit ''Body'' @ nl @ lit ''a |  | b c'' @ nl)"
proof -
  have d: "Document ex_env docx_path = Inr ex_doc" by (simp add: ex_env_def)
  have p: "paragraphs ex_doc =
      Inr [Paragraph (Inr (lit '' Title '')), Paragraph (Inr (lit ''   '')), Paragraph (Inr (lit ''Body''))]"
    by (simp add: ex_doc_def)
  show ?thesis
    by (simp add: read_docx_pars[OF d p] par_ok_def ex_strips ex_doc_tables)
qed


section \<open>Paragraphs\<close>

text \<open>
  C1, as stated: a paragraph whose trimmed text is non-empty is written trimmed. It is not:
  the paragraph \<^verbatim>\<open>" Title "\<close> passes the test on its trimmed text and is written with
  its blanks.
\<close>

theorem read_docx_paragraph_trimmed_counterexample:
  "par_text (Paragraph (Inr (lit '' Title ''))) = Inr (lit '' Title '') \<and>
   strip (lit '' Title '') \<noteq> [] \<and>
   paragraph_step (Paragraph (Inr (lit '' Title ''))) []
     \<noteq> (Inr (), [] @ strip (lit '' Title '') @ nl)"
  by (simp add: paragraph_step_ok out_write_def ex_strips) (simp add: lit_def)

text \<open>
  C1, amended: for every document and every paragraph of it whose text is non-empty after
  trimming, the extractor writes the paragraph's text as it is, untrimmed, followed by a
  line break; a paragraph that is empty or of white space only produces nothing. After the
  header, the paragraph lines come in document order and before anything of the tables,
  whatever reading the tables gives; when every read of the document succeeds the
  extractor returns.
\<close>

theorem read_docx_paragraph_lines:
  "(par_text p = Inr t \<longrightarrow>
      paragraph_step p out = (Inr (), if strip t = [] then out else out @ t @ nl)) \<and>
   (Document E path = Inr doc \<and> paragraphs doc = Inr ps \<and> list_all par_ok ps \<longrightarrow>
      snd (read_docx E path out) =
        out @ lit ''--- DOCX: '' @ path @ lit '' ---'' @ nl
          @ concat (map (\<lambda>p. projr (par_text p) @ nl)
              (filter (\<lambda>p. strip (projr (par_text p)) \<noteq> []) ps))
          @ written (seq (call (tables doc)) (\<lambda>ts. for_each ts table_step))) \<and>
   (Document E path = Inr doc \<and> docx_ok doc \<longrightarrow> fst (read_docx E path out) = Inr ())"
proof -
  have 1: "paragraph_step p out = (Inr (), if strip t = [] then out else out @ t @ nl)"
    if "par_text p = Inr t"
    using that by (simp add: paragraph_step_ok out_write_def)
  have 2: "snd (read_docx E path out) =
        out @ lit ''--- DOCX: '' @ path @ lit '' ---'' @ nl
          @ concat (map (\<lambda>p. projr (par_text p) @ nl)
              (filter (\<lambda>p. strip (projr (par_text p)) \<noteq> []) ps))
          @ written (seq (call (tables doc)) (\<lambda>ts. for_each ts table_step))"
    if "Document E path = Inr doc" "paragraphs doc = Inr ps" "list_all par_ok ps"
  proof -
    have "snd (seq (call (tables doc)) (\<lambda>ts. for_each ts table_step) x) =
        x @ written (seq (call (tables doc)) (\<lambda>ts. for_each ts table_step))" for x
      using appends_run[OF appends_tables, of doc x] by simp
    then show ?thesis by (simp add: read_docx_pars[OF that])
  qed
  have 3: "fst (read_docx E path out) = Inr ()" if "Document E path = Inr doc" "docx_ok doc"
    using that by (simp add: read_docx_returns)
  from 1 2 3 show ?thesis by blast
qed

text \<open>The example document: the padded title is kept as it is, the blank paragraph is dropped.\<close>

theorem read_docx_paragraph_lines_witness:
  "Document ex_env docx_path = Inr ex_doc \<and> docx_ok ex_doc \<and>
   paragraph_step (Paragraph (Inr (lit '' Title ''))) [] = (Inr (), lit '' Title '' @ nl) \<and>
   paragraph_step (Paragraph (Inr (lit ''   ''))) [] = (Inr (), []) \<and>
   read_docx ex_env docx_path [] =
     (Inr (), lit ''--- DOCX: '' @ docx_path @ lit '' ---'' @ nl
        @ lit '' Title '' @ nl @ lit ''Body'' @ nl @ lit ''a |  | b c'' @ nl)"
proof -
  have d: "Document ex_env docx_path = Inr ex_doc" by (simp add: ex_env_def)
  have p: "paragraphs ex_doc =
      Inr [Paragraph (Inr (lit '' Title '')), Paragraph (Inr (lit ''   '')), Paragraph (Inr (lit ''Body''))]"
    by (simp add: ex_doc_def)
  have w: "written (seq (call (tables ex_doc)) (\<lambda>ts. for_each ts table_step)) = lit ''a |  | b c'' @ nl"
    by (simp add: written_def ex_doc_tables)
  have "read_docx ex_env docx_path [] =
      (fst (read_docx ex_env docx_path []), snd (read_docx ex_env docx_path []))" by simp
  then show ?thesis
    using d p ex_doc_ok w
      read_docx_paragraph_lines[of "Paragraph (Inr (lit '' Title ''))" "lit '' Title ''" "[]" ex_env docx_path ex_doc
        "[Paragraph (Inr (lit '' Title '')), Paragraph (Inr (lit ''   '')), Paragraph (Inr (lit ''Body''))]"]
      read_docx_paragraph_lines[of "Paragraph (Inr (lit ''   ''))" "lit ''   ''" "[]" ex_env docx_path ex_doc
        "[Paragraph (Inr (lit '' Title '')), Paragraph (Inr (lit ''   '')), Paragraph (Inr (lit ''Body''))]"]
    by (simp add: ex_strips par_ok_def)
qed

section \<open>Table rows\<close>

text \<open>
  C4: for every table row, each cell's text has its line breaks replaced by single spaces
  and is then trimmed; the row line is these strings, in row order, joined by
  \<^verbatim>\<open>" | "\<close> and followed by a line break. For the cells \<^verbatim>\<open>"a"\<close>, \<^verbatim>\<open>""\<close>,
  \<^verbatim>\<open>" b\nc "\<close> the line is \<^verbatim>\<open>a |  | b c\<close>. The rows of all tables are written so, in
  order, when they can be read.
\<close>

theorem read_docx_row_line:
  "(row_ok r \<longrightarrow>
      row_data (projr (cells r)) [] out =
        (Inr (map (\<lambda>c. strip (replace_nl (projr (cell_text c)))) (projr (cells r))), out)) \<and>
   (row_ok r \<and> any (row_strings r) \<longrightarrow>
      row_step r out =
        (Inr (), out @ join (lit '' | '')
           (map (\<lambda>c. strip (replace_nl (projr (cell_text c)))) (projr (cells r))) @ nl)) \<and>
   row_step (Row (Inr [Cell (Inr (lit ''a'')), Cell (Inr []), Cell (Inr (lit '' b'' @ nl @ lit ''c ''))])) out =
     (Inr (), out @ lit ''a |  | b c'' @ nl) \<and>
   (list_all table_ok ts \<longrightarrow>
      written (for_each ts table_step) =
        concat (map (\<lambda>r. join (lit '' | '') (row_strings r) @ nl)
          (filter (\<lambda>r. any (row_strings r)) (concat (map (\<lambda>t. projr (rows t)) ts)))))"
proof -
  have 1: "row_data (projr (cells r)) [] out =
        (Inr (map (\<lambda>c. strip (replace_nl (projr (cell_text c)))) (projr (cells r))), out)"
    if "row_ok r"
  proof -
    from that obtain cs where cs: "cells r = Inr cs" "list_all cell_ok cs"
      by (cases "cells r") (simp_all add: row_ok_def)
    show ?thesis by (simp add: cs row_data_ok call_def)
  qed
  have 2: "row_step r out =
        (Inr (), out @ join (lit '' | '')
           (map (\<lambda>c. strip (replace_nl (projr (cell_text c)))) (projr (cells r))) @ nl)"
    if "row_ok r" "any (row_strings r)"
    using that by (simp add: row_step_ok out_write_def) (simp add: row_strings_def)
  have 3: "written (for_each ts table_step) =
        concat (map (\<lambda>r. join (lit '' | '') (row_strings r) @ nl)
          (filter (\<lambda>r. any (row_strings r)) (concat (map (\<lambda>t. projr (rows t)) ts))))"
    if "list_all table_ok ts"
    by (simp add: tables_write[OF that] written_write)
  from 1 2 3 ex_first_row show ?thesis by blast
qed

text \<open>A row of two cells, the second with a line break inside and blanks around.\<close>

theorem read_docx_row_line_witness:
  "row_ok (Row (Inr [Cell (Inr (lit ''Q1'')), Cell (Inr (lit '' 10'' @ nl @ lit ''units ''))])) \<and>
   any (row_strings (Row (Inr [Cell (Inr (lit ''Q1'')), Cell (Inr (lit '' 10'' @ nl @ lit ''units ''))]))) \<and>
   list_all table_ok
     [Table (Inr [Row (Inr [Cell (Inr (lit ''Q1'')), Cell (Inr (lit '' 10'' @ nl @ lit ''units ''))])])] \<and>
   row_data [Cell (Inr (lit ''Q1'')), Cell (Inr (lit '' 10'' @ nl @ lit ''units ''))] [] (lit ''x'') =
     (Inr [lit ''Q1'', lit ''10 units''], lit ''x'') \<and>
   row_step (Row (Inr [Cell (Inr (lit ''Q1'')), Cell (Inr (lit '' 10'' @ nl @ lit ''units ''))])) (lit ''x'') =
     (Inr (), lit ''x'' @ lit ''Q1 | 10 units'' @ nl) \<and>
   written (for_each
       [Table (Inr [Row (Inr [Cell (Inr (lit ''Q1'')), Cell (Inr (lit '' 10'' @ nl @ lit ''units ''))])])]
       table_step) = lit ''Q1 | 10 units'' @ nl"
proof -
  let ?r = "Row (Inr [Cell (Inr (lit ''Q1'')), Cell (Inr (lit '' 10'' @ nl @ lit ''units ''))])"
  have ok: "row_ok ?r" by (simp add: row_ok_def cell_ok_def)
  have e: "strip (replace_nl (lit ''Q1'')) = lit ''Q1''"
    "strip (replace_nl (lit '' 10'' @ nl @ lit ''units '')) = lit ''10 units''"
    by (simp_all add: strip_def replace_nl_def is_space_def lit_def nl_def)
  have s: "row_strings ?r = [lit ''Q1'', lit ''10 units'']"
    by (simp add: row_strings_def e)
  have "lit ''Q1'' \<noteq> []" by (simp add: lit_def)
  then have a: "any (row_strings ?r)" unfolding s by (simp add: any_def)
  have t: "list_all table_ok [Table (Inr [?r])]" by (simp add: table_ok_def ok)
  have j: "lit ''Q1'' @ lit '' | '' @ lit ''10 units'' = lit ''Q1 | 10 units''"
    by (simp add: lit_def)
  show ?thesis
    using ok a t read_docx_row_line[of ?r "lit ''x''" "[Table (Inr [?r])]"]
    by (simp add: s e j)
qed

text \<open>
  C5: for every table row in which every cell is empty or of white space only, the
  extractor writes nothing, not even a blank line: the stream is as it was.
\<close>

theorem read_docx_blank_row:
  "cells r = Inr cs \<Longrightarrow> \<forall>c\<in>set cs. \<exists>t. cell_text c = Inr t \<and> (\<forall>ch\<in>set t. is_space ch) \<Longrightarrow>
     row_step r out = (Inr (), out)"
proof -
  assume cs: "cells r = Inr cs"
    and blank: "\<forall>c\<in>set cs. \<exists>t. cell_text c = Inr t \<and> (\<forall>ch\<in>set t. is_space ch)"
  have c: "cell_ok c \<and> strip (replace_nl (projr (cell_text c))) = []" if "c \<in> set cs" for c
  proof -
    from that blank obtain t where t: "cell_text c = Inr t" "\<forall>ch\<in>set t. is_space ch" by blast
    from t(2) have "\<forall>ch\<in>set (replace_nl t). is_space ch" by (rule replace_nl_all_space)
    then have "strip (replace_nl t) = []" by (rule strip_all_space)
    with t(1) show ?thesis by (simp add: cell_ok_def)
  qed
  then have ok: "row_ok r" by (simp add: row_ok_def cs list_all_iff)
  from c have "\<not> any (row_strings r)"
    by (simp add: any_def row_strings_def cs list_ex_iff)
  then show ?thesis by (simp add: row_step_ok[OF ok] out_write_def)
qed

text \<open>A row of an empty cell, a cell of blanks and a cell of a line break and a tab.\<close>

theorem read_docx_blank_row_witness:
  "cells (Row (Inr [Cell (Inr []), Cell (Inr (lit ''  '')), Cell (Inr (nl @ [9]))])) =
     Inr [Cell (Inr []), Cell (Inr (lit ''  '')), Cell (Inr (nl @ [9]))] \<and>
   list_all is_space (concat [[], lit ''  '', nl @ [9]]) \<and>
   row_step (Row (Inr [Cell (Inr []), Cell (Inr (lit ''  '')), Cell (Inr (nl @ [9]))])) (lit ''x'') =
     (Inr (), lit ''x'')"
proof -
  let ?cs = "[Cell (Inr []), Cell (Inr (lit ''  '')), Cell (Inr (nl @ [9]))]"
  have c: "cells (Row (Inr ?cs)) = Inr ?cs" by simp
  have b: "\<forall>c\<in>set ?cs. \<exists>t. cell_text c = Inr t \<and> (\<forall>ch\<in>set t. is_space ch)"
    by (simp add: is_space_def lit_def nl_def)
  have "list_all is_space (concat [[], lit ''  '', nl @ [9]])"
    by (simp add: is_space_def lit_def nl_def)
  then show ?thesis using read_docx_blank_row[OF c b, of "lit ''x''"] by simp
qed

section \<open>Failures\<close>

text \<open>
  C10: the header line \<^verbatim>\<open>--- DOCX: <path> ---\<close> is written before the document is opened,
  so when opening fails the extractor raises with the header already written, the stream
  is not as it was, and the run, whose output file was opened, ends with exactly the
  header in that file.
\<close>

theorem read_docx_header_before_failure:
  "Document E path = Inl e \<longrightarrow>
     read_docx E path out = (Inl e, out @ lit ''--- DOCX: '' @ path @ lit '' ---'' @ nl) \<and>
     snd (read_docx E path out) \<noteq> out \<and>
     (path = docx_path \<and> open_w E out_path = Inr () \<longrightarrow>
        main E old = \<lparr>out_text = lit ''--- DOCX: '' @ docx_path @ lit '' ---'' @ nl, status = 1\<rparr>)"
  by (auto simp add: read_docx_fail main_docx_raises nl_def)

theorem read_docx_header_before_failure_witness:
  "Document ex_env_bad_docx docx_path = Inl (Exception (lit ''Package not found'')) \<and>
   open_w ex_env_bad_docx out_path = Inr () \<and>
   read_docx ex_env_bad_docx docx_path (lit ''x'') =
     (Inl (Exception (lit ''Package not found'')), lit ''x'' @ lit ''--- DOCX: '' @ docx_path @ lit '' ---'' @ nl) \<and>
   out_text (main ex_env_bad_docx (lit ''x'')) = lit ''--- DOCX: '' @ docx_path @ lit '' ---'' @ nl"
proof -
  have d: "Document ex_env_bad_docx docx_path = Inl (Exception (lit ''Package not found''))"
    "open_w ex_env_bad_docx out_path = Inr ()"
    by (simp_all add: ex_env_bad_docx_def ex_env_def)
  show ?thesis
    using d read_docx_header_before_failure[of ex_env_bad_docx docx_path
        "Exception (lit ''Package not found'')" "lit ''x''" "lit ''x''"]
    by simp
qed

text \<open>
  C2: if opening the spreadsheet as a zip archive fails, the extractor catches the
  failure, writes after its header the one line \<^verbatim>\<open>Failed to read xlsx: <description>\<close> and
  nothing more, and returns normally; the run, which got there because the output file
  was opened and the document was read, ends with status 0.
\<close>

theorem read_xlsx_open_failure:
  "ZipFile E path = Inl e \<longrightarrow>
     read_xlsx E path out =
       (Inr (), out @ nl @ lit ''--- XLSX: '' @ path @ lit '' ---'' @ nl
          @ lit ''Failed to read xlsx: '' @ str_of e @ nl) \<and>
     (path = xlsx_path \<and> open_w E out_path = Inr () \<and>
      Document E docx_path = Inr doc \<and> docx_ok doc \<longrightarrow>
        status (main E old) = 0 \<and>
        out_text (main E old) =
          snd (read_docx E docx_path []) @ nl @ lit ''--- XLSX: '' @ xlsx_path @ lit '' ---'' @ nl
            @ lit ''Failed to read xlsx: '' @ str_of e @ nl)"
proof (intro impI conjI)
  assume z: "ZipFile E path = Inl e"
  then show "read_xlsx E path out =
       (Inr (), out @ nl @ lit ''--- XLSX: '' @ path @ lit '' ---'' @ nl
          @ lit ''Failed to read xlsx: '' @ str_of e @ nl)"
    by (rule read_xlsx_fail)
next
  assume z: "ZipFile E path = Inl e"
    and h: "path = xlsx_path \<and> open_w E out_path = Inr () \<and>
      Document E docx_path = Inr doc \<and> docx_ok doc"
  then have r: "fst (read_docx E docx_path []) = Inr ()"
    by (auto simp add: read_docx_returns)
  from h have o: "open_w E out_path = Inr ()" by simp
  from z h have z': "ZipFile E xlsx_path = Inl e" by simp
  show "status (main E old) = 0" by (simp add: main_docx_returns[OF o r])
  show "out_text (main E old) =
          snd (read_docx E docx_path []) @ nl @ lit ''--- XLSX: '' @ xlsx_path @ lit '' ---'' @ nl
            @ lit ''Failed to read xlsx: '' @ str_of e @ nl"
    by (simp add: main_docx_returns[OF o r] read_xlsx_fail[OF z'])
qed

theorem read_xlsx_open_failure_witness:
  "ZipFile ex_env_bad_xlsx xlsx_path = Inl (Exception (lit ''File is not a zip file'')) \<and>
   open_w ex_env_bad_xlsx out_path = Inr () \<and>
   Document ex_env_bad_xlsx docx_path = Inr ex_doc \<and> docx_ok ex_doc \<and>
   read_xlsx ex_env_bad_xlsx xlsx_path [] =
     (Inr (), nl @ lit ''--- XLSX: '' @ xlsx_path @ lit '' ---'' @ nl
        @ lit ''Failed to read xlsx: File is not a zip file'' @ nl) \<and>
   status (main ex_env_bad_xlsx []) = 0"
proof -
  have z: "ZipFile ex_env_bad_xlsx xlsx_path = Inl (Exception (lit ''File is not a zip file''))"
    by (simp add: ex_env_bad_xlsx_def)
  have d: "Document ex_env_bad_xlsx docx_path = Inr ex_doc" "open_w ex_env_bad_xlsx out_path = Inr ()"
    by (simp_all add: ex_env_bad_xlsx_def ex_env_def)
  show ?thesis
    using z d ex_doc_ok read_xlsx_open_failure[of ex_env_bad_xlsx xlsx_path
        "Exception (lit ''File is not a zip file'')" "[]" ex_doc "[]"]
    by (simp add: lit_def)
qed




section \<open>Archive entries\<close>

lemma elems_written:
  "written (for_each es elem_step) =
     concat (map (\<lambda>e. strip (the (elem_text e)) @ nl)
       (filter (\<lambda>e. elem_text e \<noteq> None \<and> strip (the (elem_text e)) \<noteq> []) es))"
proof -
  have "(case elem_text e of None \<Rightarrow> [] | Some t \<Rightarrow> if strip t \<noteq> [] then strip t @ nl else []) =
      (if elem_text e \<noteq> None \<and> strip (the (elem_text e)) \<noteq> [] then strip (the (elem_text e)) @ nl else [])"
    for e by (cases "elem_text e") simp_all
  then show ?thesis
    by (simp add: for_each_body_write[OF elem_step_write] written_write concat_map_if)
qed

lemma entries_written:
  "written (for_each ns (entry_step E z)) =
     concat (map (\<lambda>n. case read z n of Inl _ \<Rightarrow> [] | Inr b \<Rightarrow>
                    (case fromstring E b of Inl _ \<Rightarrow> []
                     | Inr root \<Rightarrow> written (for_each (iter root) elem_step)))
       (filter (\<lambda>n. endswith n (lit ''.xml'')) ns))"
  by (simp add: for_each_body_write[OF entry_step_write] written_write concat_map_if)

lemma entries_run:
  "for_each ns (entry_step E z) out = (Inr (), out @ written (for_each ns (entry_step E z)))"
  by (simp add: for_each_body_write[OF entry_step_write] written_write) (simp add: out_write_def)

text \<open>
  C3: an entry whose name ends in \<^verbatim>\<open>.xml\<close> and whose bytes do not parse is skipped in
  silence: it writes nothing and raises nothing, and the loop over the entries goes on as
  if the entry were not there. With one such entry and one entry whose tree is the text
  node \<^verbatim>\<open>Revenue\<close>, in either order, the extractor writes its header and the line
  \<^verbatim>\<open>Revenue\<close>, and nothing else.
\<close>

theorem read_xlsx_skips_malformed_entry:
  "endswith n (lit ''.xml'') \<and> read z n = Inr b \<and> fromstring E b = Inl e \<longrightarrow>
     entry_step E z n out = (Inr (), out) \<and>
     for_each (ns @ n # ns') (entry_step E z) out = for_each (ns @ ns') (entry_step E z) out \<and>
     (ZipFile E path = Inr z \<and> (namelist z = [n, n'] \<or> namelist z = [n', n]) \<and>
      endswith n' (lit ''.xml'') \<and> read z n' = Inr b' \<and>
      fromstring E b' = Inr (Element (Some (lit ''Revenue'')) [] ta) \<longrightarrow>
        read_xlsx E path out =
          (Inr (), out @ nl @ lit ''--- XLSX: '' @ path @ lit '' ---'' @ nl @ lit ''Revenue'' @ nl))"
proof (intro impI, elim conjE)
  assume n: "endswith n (lit ''.xml'')" "read z n = Inr b" "fromstring E b = Inl e"
  have 1: "entry_step E z n out = (Inr (), out)"
    using n by (simp add: entry_step_write out_write_def)
  have 2: "for_each (ns @ n # ns') (entry_step E z) out = for_each (ns @ ns') (entry_step E z) out"
    using n by (simp add: entries_run entries_written)
  have 3: "read_xlsx E path out =
      (Inr (), out @ nl @ lit ''--- XLSX: '' @ path @ lit '' ---'' @ nl @ lit ''Revenue'' @ nl)"
    if h: "ZipFile E path = Inr z" "namelist z = [n, n'] \<or> namelist z = [n', n]"
      "endswith n' (lit ''.xml'')" "read z n' = Inr b'"
      "fromstring E b' = Inr (Element (Some (lit ''Revenue'')) [] ta)"
  proof -
    have r: "strip (lit ''Revenue'') = lit ''Revenue''" "lit ''Revenue'' \<noteq> []"
      by (simp_all add: strip_def is_space_def lit_def)
    have "written (for_each (namelist z) (entry_step E z)) = lit ''Revenue'' @ nl"
      using h(2) n h(3-5) by (auto simp add: entries_written elems_written r simp del: for_each.simps)
    then show ?thesis using h(1) by (simp add: read_xlsx_ok)
  qed
  from 1 2 3 show "entry_step E z n out = (Inr (), out) \<and>
     for_each (ns @ n # ns') (entry_step E z) out = for_each (ns @ ns') (entry_step E z) out \<and>
     (ZipFile E path = Inr z \<and> (namelist z = [n, n'] \<or> namelist z = [n', n]) \<and>
      endswith n' (lit ''.xml'') \<and> read z n' = Inr b' \<and>
      fromstring E b' = Inr (Element (Some (lit ''Revenue'')) [] ta) \<longrightarrow>
        read_xlsx E path out =
          (Inr (), out @ nl @ lit ''--- XLSX: '' @ path @ lit '' ---'' @ nl @ lit ''Revenue'' @ nl))"
    by blast
qed

lemma ex_names:
  "endswith (lit ''bad.xml'') (lit ''.xml'')"
  "endswith (lit ''good.xml'') (lit ''.xml'')"
  "endswith (lit ''xl/sharedStrings.xml'') (lit ''.xml'')"
  "\<not> endswith (lit ''docProps/thumbnail.jpeg'') (lit ''.xml'')"
  "endswith (lit ''xl/worksheets/sheet1.xml'') (lit ''.xml'')"
  by (simp_all add: endswith_def lit_def)

text \<open>The archive of two entries: the header and the line \<^verbatim>\<open>Revenue\<close>.\<close>

theorem read_xlsx_skips_malformed_entry_witness:
  "endswith (lit ''bad.xml'') (lit ''.xml'') \<and>
   read ex_archive_two (lit ''bad.xml'') = Inr ''<sst><si>'' \<and>
   fromstring ex_env_two ''<sst><si>'' = Inl (Exception (lit ''no element found'')) \<and>
   entry_step ex_env_two ex_archive_two (lit ''bad.xml'') (lit ''x'') = (Inr (), lit ''x'') \<and>
   read_xlsx ex_env_two xlsx_path [] =
     (Inr (), nl @ lit ''--- XLSX: '' @ xlsx_path @ lit '' ---'' @ nl @ lit ''Revenue'' @ nl)"
proof -
  have h: "read ex_archive_two (lit ''bad.xml'') = Inr ''<sst><si>''"
    "fromstring ex_env_two ''<sst><si>'' = Inl (Exception (lit ''no element found''))"
    "ZipFile ex_env_two xlsx_path = Inr ex_archive_two"
    "namelist ex_archive_two = [lit ''bad.xml'', lit ''good.xml'']"
    "read ex_archive_two (lit ''good.xml'') = Inr ''<t>Revenue</t>''"
    "fromstring ex_env_two ''<t>Revenue</t>'' = Inr (Element (Some (lit ''Revenue'')) [] None)"
    by (simp_all add: ex_archive_two_def ex_env_two_def ex_env_def ex_fromstring_def lit_def)
  show ?thesis
    using h ex_names(1,2)
      read_xlsx_skips_malformed_entry[of "lit ''bad.xml''" ex_archive_two "''<sst><si>''" ex_env_two
        "Exception (lit ''no element found'')" "lit ''x''" "[]" "[lit ''good.xml'']" xlsx_path
        "lit ''good.xml''" "''<t>Revenue</t>''" None]
      read_xlsx_skips_malformed_entry[of "lit ''bad.xml''" ex_archive_two "''<sst><si>''" ex_env_two
        "Exception (lit ''no element found'')" "[]" "[]" "[lit ''good.xml'']" xlsx_path
        "lit ''good.xml''" "''<t>Revenue</t>''" None]
    by simp
qed

lemma spec_dfs_iter: "spec_dfs stack = concat (map iter stack)"
proof (induction stack rule: spec_dfs.induct)
  case 1
  show ?case by simp
next
  case (2 e stack)
  then show ?case by (cases e) simp
qed

lemma ex_sheet_lines:
  "for_each (iter ex_sheet) elem_step out =
     (Inr (), out @ lit ''A'' @ nl @ lit ''B'' @ nl @ lit ''C'' @ nl @ lit ''D'' @ nl)"
proof -
  have s: "strip (lit '' A '') = lit ''A''" "strip (lit ''B'' @ nl) = lit ''B''"
    "strip (9 # lit ''C'') = lit ''C''" "strip (lit ''  '') = []" "strip (lit ''D'') = lit ''D''"
    "lit ''A'' \<noteq> []" "lit ''B'' \<noteq> []" "lit ''C'' \<noteq> []" "lit ''D'' \<noteq> []"
    by (simp_all add: strip_def is_space_def lit_def nl_def)
  have "written (for_each (iter ex_sheet) elem_step) =
      lit ''A'' @ nl @ lit ''B'' @ nl @ lit ''C'' @ nl @ lit ''D'' @ nl"
    by (simp add: elems_written ex_sheet_def s del: for_each.simps)
  then show ?thesis
    by (simp add: for_each_body_write[OF elem_step_write] written_write del: for_each.simps)
      (simp add: out_write_def)
qed

text \<open>
  C6: on an archive that opens, the extractor writes, after its header and for the
  entries whose names end in \<^verbatim>\<open>.xml\<close> in the order of \<^verbatim>\<open>namelist()\<close>, the lines of
  each entry that can be read and parsed: for every node of the tree in document order
  whose text is non-empty after trimming, the trimmed text and a line break. The other
  entries are never read: the run is the same on an archive that differs in what reading
  them gives. Document order is that of a depth-first walk with a stack. The trimmed text
  is the text without the white space at its two ends: what is cut off is white space,
  and what is left neither starts nor ends with white space. On the tree with the texts
  \<^verbatim>\<open>" A "\<close>, \<^verbatim>\<open>"B\n"\<close>, a tab and \<^verbatim>\<open>C\<close> one level below, blanks, none and \<^verbatim>\<open>D\<close>, the
  lines are \<^verbatim>\<open>A\<close>, \<^verbatim>\<open>B\<close>, \<^verbatim>\<open>C\<close>, \<^verbatim>\<open>D\<close>.
\<close>

theorem read_xlsx_xml_entries:
  "(ZipFile E path = Inr z \<longrightarrow>
      read_xlsx E path out =
        (Inr (), out @ nl @ lit ''--- XLSX: '' @ path @ lit '' ---'' @ nl
           @ concat (map (\<lambda>n. case read z n of Inl _ \<Rightarrow> [] | Inr b \<Rightarrow>
                 (case fromstring E b of Inl _ \<Rightarrow> []
                  | Inr root \<Rightarrow>
                      concat (map (\<lambda>e. strip (the (elem_text e)) @ nl)
                        (filter (\<lambda>e. elem_text e \<noteq> None \<and> strip (the (elem_text e)) \<noteq> [])
                          (iter root)))))
               (filter (\<lambda>n. endswith n (lit ''.xml'')) (namelist z))))) \<and>
   iter root = spec_dfs [root] \<and>
   (namelist z' = namelist z \<and>
    (\<forall>n\<in>set (namelist z). endswith n (lit ''.xml'') \<longrightarrow> read z' n = read z n) \<longrightarrow>
      for_each (namelist z') (entry_step E z') out = for_each (namelist z) (entry_step E z) out) \<and>
   (\<exists>a b. t = a @ strip t @ b \<and> list_all is_space a \<and> list_all is_space b) \<and>
   (strip t \<noteq> [] \<longrightarrow> \<not> is_space (hd (strip t)) \<and> \<not> is_space (last (strip t))) \<and>
   for_each (iter
      (Element (Some (lit '' A ''))
        [Element (Some (lit ''B'' @ nl)) [Element (Some ([9] @ lit ''C'')) [] (Some (lit ''t1''))] None,
         Element (Some (lit ''  '')) [] None,
         Element None [] None,
         Element (Some (lit ''D'')) [] (Some (lit '' t2 ''))]
        None)) elem_step out =
     (Inr (), out @ lit ''A'' @ nl @ lit ''B'' @ nl @ lit ''C'' @ nl @ lit ''D'' @ nl)"
proof -
  have 1: "iter root = spec_dfs [root]"
    by (simp add: spec_dfs_iter)
  have 2: "for_each (namelist z') (entry_step E z') out = for_each (namelist z) (entry_step E z) out"
    if "namelist z' = namelist z"
      "\<forall>n\<in>set (namelist z). endswith n (lit ''.xml'') \<longrightarrow> read z' n = read z n"
  proof -
    have "map (\<lambda>n. case read z' n of Inl _ \<Rightarrow> [] | Inr b \<Rightarrow>
                    (case fromstring E b of Inl _ \<Rightarrow> []
                     | Inr root \<Rightarrow> written (for_each (iter root) elem_step)))
            (filter (\<lambda>n. endswith n (lit ''.xml'')) (namelist z)) =
          map (\<lambda>n. case read z n of Inl _ \<Rightarrow> [] | Inr b \<Rightarrow>
                    (case fromstring E b of Inl _ \<Rightarrow> []
                     | Inr root \<Rightarrow> written (for_each (iter root) elem_step)))
            (filter (\<lambda>n. endswith n (lit ''.xml'')) (namelist z))"
      using that(2) by (intro map_cong) auto
    then show ?thesis
      by (simp only: entries_run entries_written that(1))
  qed
  have 3: "read_xlsx E path out =
        (Inr (), out @ nl @ lit ''--- XLSX: '' @ path @ lit '' ---'' @ nl
           @ concat (map (\<lambda>n. case read z n of Inl _ \<Rightarrow> [] | Inr b \<Rightarrow>
                 (case fromstring E b of Inl _ \<Rightarrow> []
                  | Inr root \<Rightarrow>
                      concat (map (\<lambda>e. strip (the (elem_text e)) @ nl)
                        (filter (\<lambda>e. elem_text e \<noteq> None \<and> strip (the (elem_text e)) \<noteq> [])
                          (iter root)))))
               (filter (\<lambda>n. endswith n (lit ''.xml'')) (namelist z))))"
    if "ZipFile E path = Inr z"
    using that by (simp add: read_xlsx_ok entries_written elems_written cong: sum.case_cong)
  have 4: "\<exists>a b. t = a @ strip t @ b \<and> list_all is_space a \<and> list_all is_space b"
    using strip_decomp[of t] by (simp add: list_all_iff)
  have 5: "strip t \<noteq> [] \<longrightarrow> \<not> is_space (hd (strip t)) \<and> \<not> is_space (last (strip t))"
    using strip_ends[of t] by blast
  have 6: "for_each (iter
      (Element (Some (lit '' A ''))
        [Element (Some (lit ''B'' @ nl)) [Element (Some ([9] @ lit ''C'')) [] (Some (lit ''t1''))] None,
         Element (Some (lit ''  '')) [] None,
         Element None [] None,
         Element (Some (lit ''D'')) [] (Some (lit '' t2 ''))]
        None)) elem_step out =
     (Inr (), out @ lit ''A'' @ nl @ lit ''B'' @ nl @ lit ''C'' @ nl @ lit ''D'' @ nl)"
    using ex_sheet_lines[of out] by (simp only: ex_sheet_def)
  from 1 2 3 4 5 6 show ?thesis by blast
qed

text \<open>
  The archive of four entries: \<^verbatim>\<open>Revenue\<close> and the four lines of the sheet are written,
  in this order, and nothing changes when the picture cannot be read. The text
  \<^verbatim>\<open>"B\n"\<close> loses its line break, the tab before \<^verbatim>\<open>C\<close> is cut off.
\<close>

theorem read_xlsx_xml_entries_witness:
  "ZipFile ex_env xlsx_path = Inr ex_archive \<and>
   namelist ex_archive_no_jpeg = namelist ex_archive \<and>
   read ex_archive_no_jpeg (lit ''bad.xml'') = read ex_archive (lit ''bad.xml'') \<and>
   read ex_archive_no_jpeg (lit ''xl/sharedStrings.xml'') = read ex_archive (lit ''xl/sharedStrings.xml'') \<and>
   read ex_archive_no_jpeg (lit ''xl/worksheets/sheet1.xml'') = read ex_archive (lit ''xl/worksheets/sheet1.xml'') \<and>
   \<not> endswith (lit ''docProps/thumbnail.jpeg'') (lit ''.xml'') \<and>
   read ex_archive_no_jpeg (lit ''docProps/thumbnail.jpeg'') \<noteq> read ex_archive (lit ''docProps/thumbnail.jpeg'') \<and>
   read_xlsx ex_env xlsx_path [] =
     (Inr (), nl @ lit ''--- XLSX: '' @ xlsx_path @ lit '' ---'' @ nl @ lit ''Revenue'' @ nl
        @ lit ''A'' @ nl @ lit ''B'' @ nl @ lit ''C'' @ nl @ lit ''D'' @ nl) \<and>
   for_each (namelist ex_archive_no_jpeg) (entry_step ex_env ex_archive_no_jpeg) [] =
     for_each (namelist ex_archive) (entry_step ex_env ex_archive) [] \<and>
   iter ex_sheet = spec_dfs [ex_sheet] \<and>
   map elem_text (spec_dfs [ex_sheet]) =
     [Some (lit '' A ''), Some (lit ''B'' @ nl), Some ([9] @ lit ''C''), Some (lit ''  ''), None,
      Some (lit ''D'')] \<and>
   strip (lit ''B'' @ nl) = lit ''B'' \<and>
   lit ''B'' @ nl = [] @ strip (lit ''B'' @ nl) @ nl \<and>
   \<not> is_space (hd (strip (lit ''B'' @ nl))) \<and> \<not> is_space (last (strip (lit ''B'' @ nl)))"
proof -
  have z: "ZipFile ex_env xlsx_path = Inr ex_archive"
    by (simp add: ex_env_def)
  have n: "namelist ex_archive_no_jpeg = namelist ex_archive"
    by (simp add: ex_archive_no_jpeg_def)
  have l: "namelist ex_archive =
      [lit ''bad.xml'', lit ''xl/sharedStrings.xml'', lit ''docProps/thumbnail.jpeg'',
       lit ''xl/worksheets/sheet1.xml'']"
    by (simp add: ex_archive_def)
  have k: "read ex_archive_no_jpeg (lit ''bad.xml'') = read ex_archive (lit ''bad.xml'')"
    "read ex_archive_no_jpeg (lit ''xl/sharedStrings.xml'') = read ex_archive (lit ''xl/sharedStrings.xml'')"
    "read ex_archive_no_jpeg (lit ''xl/worksheets/sheet1.xml'') = read ex_archive (lit ''xl/worksheets/sheet1.xml'')"
    by (simp_all add: ex_archive_no_jpeg_def lit_def)
  have r: "\<forall>n\<in>set (namelist ex_archive).
      endswith n (lit ''.xml'') \<longrightarrow> read ex_archive_no_jpeg n = read ex_archive n"
    by (simp add: l ex_names k)
  have d: "read ex_archive_no_jpeg (lit ''docProps/thumbnail.jpeg'') \<noteq>
      read ex_archive (lit ''docProps/thumbnail.jpeg'')"
    by (simp add: ex_archive_no_jpeg_def ex_archive_def lit_def)
  have e: "read ex_archive (lit ''bad.xml'') = Inr ''<sst><si>''"
    "read ex_archive (lit ''xl/sharedStrings.xml'') = Inr ''<sst><si><t>Revenue</t></si>  2024 </sst>''"
    "read ex_archive (lit ''xl/worksheets/sheet1.xml'') = Inr ''<sheet/>''"
    "fromstring ex_env ''<sst><si>'' = Inl (Exception (lit ''no element found''))"
    "fromstring ex_env ''<sst><si><t>Revenue</t></si>  2024 </sst>'' = Inr ex_root"
    "fromstring ex_env ''<sheet/>'' = Inr ex_sheet"
    by (simp_all add: ex_archive_def ex_env_def ex_fromstring_def lit_def)
  have s: "strip (lit '' A '') = lit ''A''" "strip (lit ''B'' @ nl) = lit ''B''"
    "strip (9 # lit ''C'') = lit ''C''" "strip (lit ''  '') = []" "strip (lit ''D'') = lit ''D''"
    "lit ''A'' \<noteq> []" "lit ''B'' \<noteq> []" "lit ''C'' \<noteq> []" "lit ''D'' \<noteq> []"
    by (simp_all add: strip_def is_space_def lit_def nl_def)
  have m: "map elem_text (iter ex_sheet) =
     [Some (lit '' A ''), Some (lit ''B'' @ nl), Some ([9] @ lit ''C''), Some (lit ''  ''), None,
      Some (lit ''D'')]"
    by (simp add: ex_sheet_def)
  have x: "read_xlsx ex_env xlsx_path [] =
     (Inr (), nl @ lit ''--- XLSX: '' @ xlsx_path @ lit '' ---'' @ nl @ lit ''Revenue'' @ nl
        @ lit ''A'' @ nl @ lit ''B'' @ nl @ lit ''C'' @ nl @ lit ''D'' @ nl)"
    using read_xlsx_xml_entries[of ex_env xlsx_path ex_archive "[]" ex_sheet ex_archive_no_jpeg "lit ''B'' @ nl"] z
    by (simp add: l ex_names e) (simp add: ex_root_def ex_sheet_def s ex_strips)
  have b: "lit ''B'' \<noteq> []" "hd (lit ''B'') = 66" "last (lit ''B'') = 66" "\<not> is_space 66"
    by (simp_all add: lit_def is_space_def)
  show ?thesis
    using z n r d k x m
      read_xlsx_xml_entries[of ex_env xlsx_path ex_archive "[]" ex_sheet ex_archive_no_jpeg "lit ''B'' @ nl"]
    by (simp add: ex_names s b)
qed

section \<open>Tail text\<close>

lemma texts_erase_tails: "map elem_text (iter (erase_tails r)) = map elem_text (iter r)"
proof (induction r)
  case (Element t cs ta)
  have m: "map (\<lambda>c. map elem_text (iter (erase_tails c))) cs = map (\<lambda>c. map elem_text (iter c)) cs"
    by (rule map_cong[OF refl]) (simp add: Element.IH)
  have "map elem_text (iter (erase_tails (Element t cs ta))) =
      t # concat (map (\<lambda>c. map elem_text (iter (erase_tails c))) cs)"
    by (simp add: map_concat comp_def)
  also have "\<dots> = t # concat (map (\<lambda>c. map elem_text (iter c)) cs)"
    by (simp only: m)
  also have "\<dots> = map elem_text (iter (Element t cs ta))"
    by (simp add: map_concat comp_def)
  finally show ?case .
qed

lemma elems_written_texts:
  "written (for_each es elem_step) =
     concat (map (\<lambda>t. case t of None \<Rightarrow> [] | Some t \<Rightarrow> if strip t \<noteq> [] then strip t @ nl else [])
       (map elem_text es))"
  by (simp add: for_each_body_write[OF elem_step_write] written_write comp_def)

lemma elems_run:
  "for_each es elem_step out = (Inr (), out @ written (for_each es elem_step))"
  by (simp add: for_each_body_write[OF elem_step_write] written_write) (simp add: out_write_def)

text \<open>
  C9: for a parsed entry the extractor writes only the \<^verbatim>\<open>.text\<close> of the nodes, the
  fragment before a node's first child. The \<^verbatim>\<open>.tail\<close> fragments, after a child's end
  tag, are never written: two trees that differ in tails only give the same run, of the
  loop over the nodes and of the whole entry.
\<close>

theorem read_xlsx_ignores_tails:
  "erase_tails r = erase_tails r' \<longrightarrow>
     for_each (iter r) elem_step out = for_each (iter r') elem_step out \<and>
     (read z n = Inr b \<and> fromstring E b = Inr r \<and> fromstring E' b = Inr r' \<longrightarrow>
        entry_step E z n out = entry_step E' z n out)"
proof
  assume "erase_tails r = erase_tails r'"
  then have "map elem_text (iter r) = map elem_text (iter r')"
    by (metis texts_erase_tails)
  then have w: "written (for_each (iter r) elem_step) = written (for_each (iter r') elem_step)"
    by (simp only: elems_written_texts)
  then have "for_each (iter r) elem_step out = for_each (iter r') elem_step out"
    by (simp only: elems_run[of "iter r"] elems_run[of "iter r'"])
  moreover have "entry_step E z n out = entry_step E' z n out"
    if "read z n = Inr b" "fromstring E b = Inr r" "fromstring E' b = Inr r'"
    using that w by (simp add: entry_step_write)
  ultimately show "for_each (iter r) elem_step out = for_each (iter r') elem_step out \<and>
     (read z n = Inr b \<and> fromstring E b = Inr r \<and> fromstring E' b = Inr r' \<longrightarrow>
        entry_step E z n out = entry_step E' z n out)"
    by blast
qed

text \<open>
  The tree of \<^verbatim>\<open><sst><si><t>Revenue</t></si>  2024 </sst>\<close>: the tail \<^verbatim>\<open>2024\<close> is not
  written, with it or without it the loop writes \<^verbatim>\<open>Revenue\<close>.
\<close>

theorem read_xlsx_ignores_tails_witness:
  "erase_tails ex_root = erase_tails ex_root_no_tail \<and>
   ex_root \<noteq> ex_root_no_tail \<and>
   read ex_archive (lit ''xl/sharedStrings.xml'') = Inr ''<sst><si><t>Revenue</t></si>  2024 </sst>'' \<and>
   fromstring ex_env ''<sst><si><t>Revenue</t></si>  2024 </sst>'' = Inr ex_root \<and>
   fromstring ex_env_no_tail ''<sst><si><t>Revenue</t></si>  2024 </sst>'' = Inr ex_root_no_tail \<and>
   for_each (iter ex_root) elem_step [] = (Inr (), lit ''Revenue'' @ nl) \<and>
   entry_step ex_env ex_archive (lit ''xl/sharedStrings.xml'') [] =
     entry_step ex_env_no_tail ex_archive (lit ''xl/sharedStrings.xml'') []"
proof -
  have e: "erase_tails ex_root = erase_tails ex_root_no_tail"
    by (simp add: ex_root_def ex_root_no_tail_def)
  have d: "ex_root \<noteq> ex_root_no_tail"
    by (simp add: ex_root_def ex_root_no_tail_def)
  have h: "read ex_archive (lit ''xl/sharedStrings.xml'') = Inr ''<sst><si><t>Revenue</t></si>  2024 </sst>''"
    "fromstring ex_env ''<sst><si><t>Revenue</t></si>  2024 </sst>'' = Inr ex_root"
    "fromstring ex_env_no_tail ''<sst><si><t>Revenue</t></si>  2024 </sst>'' = Inr ex_root_no_tail"
    by (simp_all add: ex_archive_def ex_env_def ex_env_no_tail_def ex_fromstring_def lit_def)
  have s: "strip (lit ''Revenue'') = lit ''Revenue''" "lit ''Revenue'' \<noteq> []"
    by (simp_all add: strip_def is_space_def lit_def)
  have w: "for_each (iter ex_root_no_tail) elem_step [] = (Inr (), lit ''Revenue'' @ nl)"
    by (simp add: elems_run elems_written s ex_root_no_tail_def del: for_each.simps)
  show ?thesis
    using e d h w
      read_xlsx_ignores_tails[of ex_root ex_root_no_tail "[]" ex_archive
        "lit ''xl/sharedStrings.xml''" "''<sst><si><t>Revenue</t></si>  2024 </sst>''"
        ex_env ex_env_no_tail]
    by simp
qed

section \<open>Determinism\<close>

text \<open>
  C8: the output file and the status of a run are determined by what opening the output
  file and the two input files gives (the archive's entry order included) and by the
  parser. Two runs that agree on these end with the same status, and with the same file
  whatever the other files are and whatever the output file held before, since mode
  \<^verbatim>\<open>"w"\<close> empties it; when the output file cannot be opened it is left as it was, so the
  files are the same when they were the same before. A second run on the file left by
  the first leaves the same file and status.
\<close>

theorem main_deterministic:
  "open_w E out_path = open_w E' out_path \<and>
   Document E docx_path = Document E' docx_path \<and>
   ZipFile E xlsx_path = ZipFile E' xlsx_path \<and>
   fromstring E = fromstring E' \<longrightarrow>
     status (main E old) = status (main E' old') \<and>
     (open_w E out_path = Inr () \<or> old = old' \<longrightarrow> main E old = main E' old') \<and>
     main E (out_text (main E old)) = main E old"
proof (intro impI, elim conjE)
  assume o: "open_w E out_path = open_w E' out_path"
    and d: "Document E docx_path = Document E' docx_path"
    and z: "ZipFile E xlsx_path = ZipFile E' xlsx_path"
    and f: "fromstring E = fromstring E'"
  have docx: "read_docx E docx_path = read_docx E' docx_path"
    using d by (simp add: read_docx_def)
  have entry: "entry_step E = entry_step E'"
    using f by (simp add: entry_step_def fun_eq_iff)
  have xlsx: "read_xlsx E xlsx_path = read_xlsx E' xlsx_path"
    using z by (simp add: read_xlsx_def entry)
  have 1: "main E old = main E' old'" if "open_w E out_path = Inr () \<or> old = old'"
  proof (cases "open_w E out_path")
    case (Inl e)
    with o have oE': "open_w E' out_path = Inl e" by simp
    from Inl that have "old = old'" by auto
    then show ?thesis by (simp add: main_no_output[OF Inl] main_no_output[OF oE'])
  next
    case (Inr u)
    then have oE: "open_w E out_path = Inr ()" by simp
    with o have oE': "open_w E' out_path = Inr ()" by simp
    show ?thesis by (simp add: main_def oE oE' docx xlsx)
  qed
  have 2: "status (main E old) = status (main E' old')"
  proof (cases "open_w E out_path")
    case (Inl e)
    with o have oE': "open_w E' out_path = Inl e" by simp
    show ?thesis by (simp add: main_no_output[OF Inl] main_no_output[OF oE'])
  next
    case (Inr u)
    then have "main E old = main E' old'" using 1 by simp
    then show ?thesis by simp
  qed
  have 3: "main E (out_text (main E old)) = main E old"
    by (cases "open_w E out_path") (simp_all add: main_def)
  from 1 2 3 show "status (main E old) = status (main E' old') \<and>
     (open_w E out_path = Inr () \<or> old = old' \<longrightarrow> main E old = main E' old') \<and>
     main E (out_text (main E old)) = main E old"
    by blast
qed

text \<open>
  Two runs on the example files, from different directories and over different old
  output: the same file. Two runs that cannot open the output file: the file as it was.
\<close>

theorem main_deterministic_witness:
  "open_w ex_env out_path = open_w ex_env_elsewhere out_path \<and>
   open_w ex_env out_path = Inr () \<and>
   Document ex_env docx_path = Document ex_env_elsewhere docx_path \<and>
   ZipFile ex_env xlsx_path = ZipFile ex_env_elsewhere xlsx_path \<and>
   fromstring ex_env = fromstring ex_env_elsewhere \<and>
   ex_env \<noteq> ex_env_elsewhere \<and>
   main ex_env [] = main ex_env_elsewhere (lit ''stale'') \<and>
   main ex_env (out_text (main ex_env [])) = main ex_env [] \<and>
   main ex_env_no_output (lit ''old'') = main ex_env_no_output (lit ''old'') \<and>
   main ex_env_no_output (out_text (main ex_env_no_output (lit ''old''))) =
     \<lparr>out_text = lit ''old'', status = 1\<rparr>"
proof -
  have h: "open_w ex_env out_path = open_w ex_env_elsewhere out_path"
    "open_w ex_env out_path = Inr ()"
    "Document ex_env docx_path = Document ex_env_elsewhere docx_path"
    "ZipFile ex_env xlsx_path = ZipFile ex_env_elsewhere xlsx_path"
    "fromstring ex_env = fromstring ex_env_elsewhere"
    by (simp_all add: ex_env_elsewhere_def ex_env_def)
  have "ZipFile ex_env [] \<noteq> ZipFile ex_env_elsewhere []"
    by (simp add: ex_env_elsewhere_def ex_env_def xlsx_path_def base_dir_def)
  then have n: "ex_env \<noteq> ex_env_elsewhere" by metis
  have o: "open_w ex_env_no_output out_path = Inl (Exception (lit ''Permission denied''))"
    by (simp add: ex_env_no_output_def)
  have a: "main ex_env [] = main ex_env_elsewhere (lit ''stale'')"
    "main ex_env (out_text (main ex_env [])) = main ex_env []"
    using h main_deterministic[of ex_env ex_env_elsewhere "[]" "lit ''stale''"] by blast+
  have b: "main ex_env_no_output (out_text (main ex_env_no_output (lit ''old''))) =
     \<lparr>out_text = lit ''old'', status = 1\<rparr>"
    using main_deterministic[of ex_env_no_output ex_env_no_output "lit ''old''" "lit ''old''"]
    by (simp add: main_no_output[OF o])
  from h n a b show ?thesis by simp
qed

end
